theory Spec2Isabelle
  imports Main "HOL-Library.List_Lexorder" "HOL-Library.Char_ord"
begin

section \<open>Strings and characters\<close>

text \<open>
  A Python \<open>str\<close> is modelled as a \<open>string\<close> (a list of \<open>char\<close>), every \<open>char\<close> read as the
  code point of the same number, U+0000 to U+00FF. On that range the character tables
  below are the ones CPython uses: \<open>str.isspace\<close>, \<open>str.strip\<close> and the regular expression
  class \<open>\s\<close> share one table, \<open>\d\<close> is the ten ASCII digits, \<open>str.lower\<close> maps one
  character to one character, and \<open>.\<close> without DOTALL excludes the line feed only.
\<close>

definition py_whitespace :: "char list" where
  "py_whitespace =
     [CHR 0x09, CHR 0x0A, CHR 0x0B, CHR 0x0C, CHR 0x0D, CHR 0x1C, CHR 0x1D, CHR 0x1E,
      CHR 0x1F, CHR 0x20, CHR 0x85, CHR 0xA0]"

definition is_space :: "char \<Rightarrow> bool" where
  "is_space c = (c \<in> set py_whitespace)"

definition is_digit :: "char \<Rightarrow> bool" where
  "is_digit c = (c \<in> set ''0123456789'')"

text \<open>The characters at which \<open>str.splitlines\<close> ends a line.\<close>

definition py_linebreaks :: "char list" where
  "py_linebreaks =
     [CHR 0x0A, CHR 0x0B, CHR 0x0C, CHR 0x0D, CHR 0x1C, CHR 0x1D, CHR 0x1E, CHR 0x85]"

definition is_linebreak :: "char \<Rightarrow> bool" where
  "is_linebreak c = (c \<in> set py_linebreaks)"

text \<open>\<open>str.strip()\<close> with no argument.\<close>

definition lstrip :: "string \<Rightarrow> string" where
  "lstrip s = dropWhile is_space s"

definition rstrip :: "string \<Rightarrow> string" where
  "rstrip s = rev (dropWhile is_space (rev s))"

definition strip :: "string \<Rightarrow> string" where
  "strip s = rstrip (lstrip s)"

text \<open>\<open>str.isspace()\<close>: at least one character, and all of them whitespace.\<close>

definition isspace :: "string \<Rightarrow> bool" where
  "isspace s = (s \<noteq> [] \<and> list_all is_space s)"

text \<open>
  \<open>str.lower()\<close>: A to Z, and the Latin-1 capitals U+00C0 to U+00DE without the
  multiplication sign U+00D7, move up by 32.
\<close>

definition lower_char :: "char \<Rightarrow> char" where
  "lower_char c =
     (let n = (of_char c :: nat)
      in if (65 \<le> n \<and> n \<le> 90) \<or> (192 \<le> n \<and> n \<le> 222 \<and> n \<noteq> 215)
         then char_of (n + 32) else c)"

definition lower :: "string \<Rightarrow> string" where
  "lower s = map lower_char s"

text \<open>
  \<open>str.splitlines()\<close>: a line ends at a line break, CR LF counting as one; the text after
  the last break is a line only when it is not empty.
\<close>

fun splitlines_from :: "string \<Rightarrow> string \<Rightarrow> string list" where
  "splitlines_from cur [] = (if cur = [] then [] else [rev cur])"
| "splitlines_from cur (c # cs) =
     (if c = CHR 0x0D then
        (case cs of
           d # ds \<Rightarrow> if d = CHR 0x0A then rev cur # splitlines_from [] ds
                     else rev cur # splitlines_from [] cs
         | [] \<Rightarrow> rev cur # splitlines_from [] cs)
      else if is_linebreak c then rev cur # splitlines_from [] cs
      else splitlines_from (c # cur) cs)"

definition splitlines :: "string \<Rightarrow> string list" where
  "splitlines s = splitlines_from [] s"

text \<open>\<open>' '.join(parts)\<close>.\<close>

fun join_space :: "string list \<Rightarrow> string" where
  "join_space [] = []"
| "join_space [p] = p"
| "join_space (p # q # ps) = p @ CHR '' '' # join_space (q # ps)"

text \<open>\<open>s.replace('.', ',')\<close>, both arguments one character long.\<close>

definition replace_dot :: "string \<Rightarrow> string" where
  "replace_dot s = map (\<lambda>c. if c = CHR ''.'' then CHR '','' else c) s"

text \<open>\<open>q in t\<close> on strings: \<open>q\<close> occurs in \<open>t\<close> as a contiguous run.\<close>

fun starts_with :: "string \<Rightarrow> string \<Rightarrow> bool" where
  "starts_with [] t = True"
| "starts_with (a # q) [] = False"
| "starts_with (a # q) (b # t) = (a = b \<and> starts_with q t)"

fun str_contains :: "string \<Rightarrow> string \<Rightarrow> bool" where
  "str_contains q [] = (q = [])"
| "str_contains q (c # t) = (starts_with q (c # t) \<or> str_contains q t)"

section \<open>The regular expressions of the parser\<close>

text \<open>
  Both patterns of the program are sequences of single characters, character classes and
  starred classes, with group parentheses. \<open>rmatch\<close> is the backtracking matcher of
  \<open>re\<close> on such sequences: a greedy star takes the longest run first and gives characters
  back one by one, a lazy star takes the shortest first; the first alternative that lets
  the rest of the pattern match is the match. The result is the end position and the
  positions passed at each group parenthesis, both counted from \<open>pos\<close>.
\<close>

datatype cls =
    Digit              \<comment> \<open>\<open>\d\<close>\<close>
  | Space              \<comment> \<open>\<open>\s\<close>\<close>
  | AnyChar            \<comment> \<open>\<open>.\<close> under DOTALL\<close>
  | NotNewline         \<comment> \<open>\<open>.\<close> without DOTALL\<close>
  | Lit char           \<comment> \<open>a literal character\<close>
  | OneOf string       \<comment> \<open>a bracket class \<open>[...]\<close>\<close>

fun cls_has :: "cls \<Rightarrow> char \<Rightarrow> bool" where
  "cls_has Digit c = is_digit c"
| "cls_has Space c = is_space c"
| "cls_has AnyChar c = True"
| "cls_has NotNewline c = (c \<noteq> CHR 0x0A)"
| "cls_has (Lit a) c = (c = a)"
| "cls_has (OneOf as) c = (c \<in> set as)"

datatype item =
    One cls            \<comment> \<open>exactly one character of the class\<close>
  | Star cls           \<comment> \<open>\<open>X*\<close>, greedy\<close>
  | LazyStar cls       \<comment> \<open>\<open>X*?\<close>\<close>
  | Paren              \<comment> \<open>an opening or closing group parenthesis\<close>

fun rmatch :: "item list \<Rightarrow> string \<Rightarrow> nat \<Rightarrow> (nat list \<times> nat) option" where
  "rmatch [] s pos = Some ([], pos)"
| "rmatch (Paren # p) s pos =
     (case rmatch p s pos of None \<Rightarrow> None | Some (ms, e) \<Rightarrow> Some (pos # ms, e))"
| "rmatch (One k # p) [] pos = None"
| "rmatch (One k # p) (c # cs) pos =
     (if cls_has k c then rmatch p cs (Suc pos) else None)"
| "rmatch (Star k # p) [] pos = rmatch p [] pos"
| "rmatch (Star k # p) (c # cs) pos =
     (if cls_has k c then
        (case rmatch (Star k # p) cs (Suc pos) of
           Some r \<Rightarrow> Some r
         | None \<Rightarrow> rmatch p (c # cs) pos)
      else rmatch p (c # cs) pos)"
| "rmatch (LazyStar k # p) [] pos = rmatch p [] pos"
| "rmatch (LazyStar k # p) (c # cs) pos =
     (case rmatch p (c # cs) pos of
        Some r \<Rightarrow> Some r
      | None \<Rightarrow> if cls_has k c then rmatch (LazyStar k # p) cs (Suc pos) else None)"

text \<open>Counted repetitions, written out: \<open>X{n}\<close>, \<open>X+\<close> and \<open>X{2,}\<close>.\<close>

definition times :: "nat \<Rightarrow> cls \<Rightarrow> item list" where
  "times n k = replicate n (One k)"

definition plus :: "cls \<Rightarrow> item list" where
  "plus k = [One k, Star k]"

definition two_or_more :: "cls \<Rightarrow> item list" where
  "two_or_more k = [One k, One k, Star k]"

definition lits :: "string \<Rightarrow> item list" where
  "lits s = map (\<lambda>c. One (Lit c)) s"

text \<open>The text between two positions of a match.\<close>

definition span :: "string \<Rightarrow> nat \<Rightarrow> nat \<Rightarrow> string" where
  "span s b e = take (e - b) (drop b s)"

text \<open>
  \<open>re.finditer\<close>: the matches from left to right, none overlapping; each search starts
  where the match before it ended. A match is the groups' texts. (After an empty match
  the scan moves on by one character; neither pattern of the program matches the empty
  string.)
\<close>

definition groups_of :: "string \<Rightarrow> nat list \<Rightarrow> string list" where
  "groups_of s ms =
     (case ms of
        [b1, e1] \<Rightarrow> [span s b1 e1]
      | [b1, e1, b2, e2] \<Rightarrow> [span s b1 e1, span s b2 e2]
      | _ \<Rightarrow> [])"

fun finditer :: "item list \<Rightarrow> string \<Rightarrow> string list list" where
  "finditer p [] = (case rmatch p [] 0 of None \<Rightarrow> [] | Some (ms, e) \<Rightarrow> [groups_of [] ms])"
| "finditer p (c # cs) =
     (case rmatch p (c # cs) 0 of
        None \<Rightarrow> finditer p cs
      | Some (ms, e) \<Rightarrow> groups_of (c # cs) ms # finditer p (drop (e - 1) cs))"

text \<open>\<open>re.sub(pattern, '', s)\<close>: every match, from left to right, is cut out.\<close>

fun sub_empty :: "item list \<Rightarrow> string \<Rightarrow> string" where
  "sub_empty p [] = []"
| "sub_empty p (c # cs) =
     (case rmatch p (c # cs) 0 of
        None \<Rightarrow> c # sub_empty p cs
      | Some (ms, e) \<Rightarrow> if e = 0 then c # sub_empty p cs else sub_empty p (drop (e - 1) cs))"

text \<open>
  The pattern of \<open>load_srt_file\<close>,
  \<^verbatim>\<open>(\d{2}:\d{2}:\d{2}[,.]\d{3})\s*-->.*?[\n\r]+(.*?)[\n\r]{2,}\<close>
  compiled with DOTALL (and MULTILINE, which has nothing to act on here).
\<close>

definition newline_cr :: cls where
  "newline_cr = OneOf [CHR 0x0A, CHR 0x0D]"

definition srt_pattern :: "item list" where
  "srt_pattern =
     [Paren] @ times 2 Digit @ lits '':'' @ times 2 Digit @ lits '':'' @ times 2 Digit
       @ [One (OneOf '',.'')] @ times 3 Digit @ [Paren]
     @ [Star Space] @ lits ''-->'' @ [LazyStar AnyChar] @ plus newline_cr
     @ [Paren, LazyStar AnyChar, Paren] @ two_or_more newline_cr"

text \<open>The tag pattern \<^verbatim>\<open><.*?>\<close>, compiled without flags.\<close>

definition tag_pattern :: "item list" where
  "tag_pattern = lits ''<'' @ [LazyStar NotNewline] @ lits ''>''"

section \<open>Parsing a subtitle file\<close>

type_synonym entry = "string \<times> string"

text \<open>
  The body of the loop over the matches in \<open>load_srt_file\<close>: the start time with its
  dots turned into commas, and the text with tags cut out, its non-blank lines stripped
  and joined by one space. A match whose text comes out empty gives no entry.
\<close>

definition clean_text :: "string \<Rightarrow> string" where
  "clean_text text_block =
     join_space (filter (\<lambda>l. l \<noteq> [])
       (map strip (splitlines (sub_empty tag_pattern text_block))))"

definition entry_of :: "string list \<Rightarrow> entry list" where
  "entry_of g =
     (case g of
        [g1, g2] \<Rightarrow>
          (let start_time = replace_dot g1;
               text_block = strip g2;
               txt = clean_text text_block
           in if txt \<noteq> [] then [(start_time, txt)] else [])
      | _ \<Rightarrow> [])"

definition parse_srt :: "string \<Rightarrow> entry list" where
  "parse_srt content = concat (map entry_of (finditer srt_pattern content))"

section \<open>The corpus\<close>

text \<open>
  \<open>subtitle_data\<close> is a Python \<open>dict\<close> from file name to the file's entries. A \<open>dict\<close>
  iterates in insertion order, so it is an association list with distinct keys:
  a new key goes to the end, an existing key keeps its place.
\<close>

type_synonym corpus = "(string \<times> entry list) list"

type_synonym match_record = "string \<times> string \<times> string"

definition has_key :: "corpus \<Rightarrow> string \<Rightarrow> bool" where
  "has_key d k = (k \<in> set (map fst d))"

fun dict_set :: "corpus \<Rightarrow> string \<Rightarrow> entry list \<Rightarrow> corpus" where
  "dict_set [] k v = [(k, v)]"
| "dict_set ((k', v') # d) k v = (if k' = k then (k, v) # d else (k', v') # dict_set d k v)"

definition dict_del :: "corpus \<Rightarrow> string \<Rightarrow> corpus" where
  "dict_del d k = filter (\<lambda>(k', v). k' \<noteq> k) d"

record app =
  subtitle_data :: corpus
  search_results :: "match_record list"

definition init_app :: app where
  "init_app = \<lparr>subtitle_data = [], search_results = []\<rparr>"

subsection \<open>Loading\<close>

text \<open>
  A selected file is its base name and what the decoding loop of \<open>load_srt_file\<close> read:
  the text under the first of the supported encodings that decodes the whole file, or
  \<open>None\<close> when none does. Both failures of \<open>load_srt_file\<close> are a \<open>ValueError\<close>:
  \<open>CannotDecode\<close> when no encoding fits, \<open>NoValidEntries\<close> when the scan found no entry.
  (The \<open>RuntimeError\<close> wrapped around the scan has nothing to catch: matching a string
  against a valid pattern does not raise.)
\<close>

datatype load_error = CannotDecode | NoValidEntries

type_synonym selected_file = "string \<times> string option"

definition load_srt_file :: "corpus \<Rightarrow> string \<Rightarrow> string option \<Rightarrow> load_error + corpus" where
  "load_srt_file d filename content =
     (case content of
        None \<Rightarrow> Inl CannotDecode
      | Some text \<Rightarrow>
          (let subtitles = parse_srt text
           in if subtitles \<noteq> [] then Inr (dict_set d filename subtitles)
              else Inl NoValidEntries))"

text \<open>
  The loop of \<open>select_files\<close>, with its three variables: the corpus, \<open>loaded_count\<close> and
  \<open>error_files\<close>. A name already in the corpus is passed over (the status bar says so for
  a moment); a file that fails is added to \<open>error_files\<close> and the loop goes on.
\<close>

fun select_loop ::
  "corpus \<Rightarrow> nat \<Rightarrow> (string \<times> load_error) list \<Rightarrow> selected_file list
     \<Rightarrow> corpus \<times> nat \<times> (string \<times> load_error) list" where
  "select_loop d loaded_count error_files [] = (d, loaded_count, error_files)"
| "select_loop d loaded_count error_files ((filename, content) # files) =
     (if has_key d filename then select_loop d loaded_count error_files files
      else
        (case load_srt_file d filename content of
           Inr d' \<Rightarrow> select_loop d' (loaded_count + 1) error_files files
         | Inl e \<Rightarrow> select_loop d loaded_count (error_files @ [(filename, e)]) files))"

text \<open>
  \<open>select_files\<close> returns the new state and what it reports at the end: the number of
  files loaded and the list of failed files shown in the error dialog; nothing when the
  file dialog was cancelled.
\<close>

definition select_files ::
  "app \<Rightarrow> selected_file list \<Rightarrow> app \<times> (nat \<times> (string \<times> load_error) list) option" where
  "select_files st files =
     (if files = [] then (st, None)
      else
        (case select_loop (subtitle_data st) 0 [] files of
           (d, loaded_count, error_files) \<Rightarrow>
             (st\<lparr>subtitle_data := d\<rparr>, Some (loaded_count, error_files))))"

subsection \<open>Removing\<close>

datatype remove_notice = NothingSelected | Cancelled | Removed nat | NothingLoaded | Cleared

fun delete_loop :: "corpus \<Rightarrow> nat \<Rightarrow> string list \<Rightarrow> corpus \<times> nat" where
  "delete_loop d deleted_count [] = (d, deleted_count)"
| "delete_loop d deleted_count (filename # rest) =
     (if has_key d filename then delete_loop (dict_del d filename) (deleted_count + 1) rest
      else delete_loop d deleted_count rest)"

text \<open>
  \<open>delete_selected\<close>: \<open>selected_items\<close> is the selection of the file list, \<open>confirmed\<close>
  the answer to the confirmation dialog. \<open>clear_search_results\<close> runs after the loop.
\<close>

definition clear_search_results :: "app \<Rightarrow> app" where
  "clear_search_results st = st\<lparr>search_results := []\<rparr>"

definition delete_selected :: "app \<Rightarrow> string list \<Rightarrow> bool \<Rightarrow> app \<times> remove_notice" where
  "delete_selected st selected_items confirmed =
     (if selected_items = [] then (st, NothingSelected)
      else if confirmed then
        (case delete_loop (subtitle_data st) 0 selected_items of
           (d, deleted_count) \<Rightarrow>
             (clear_search_results (st\<lparr>subtitle_data := d\<rparr>), Removed deleted_count))
      else (st, Cancelled))"


section \<open>Searching\<close>

text \<open>
  \<open>search_task\<close>: the two nested loops over \<open>subtitle_data.items()\<close> and over a file's
  entries, appending to \<open>temp_results\<close>. (\<open>total_matches\<close> grows by one with each append; it
  is the length of \<open>temp_results\<close>.)
\<close>

fun search_entries :: "string \<Rightarrow> string \<Rightarrow> entry list \<Rightarrow> match_record list \<Rightarrow> match_record list" where
  "search_entries query_lower filename [] temp_results = temp_results"
| "search_entries query_lower filename ((start_time, text) # subtitles) temp_results =
     search_entries query_lower filename subtitles
       (if str_contains query_lower (lower text)
        then temp_results @ [(filename, start_time, text)] else temp_results)"

fun search_items :: "string \<Rightarrow> corpus \<Rightarrow> match_record list \<Rightarrow> match_record list" where
  "search_items query_lower [] temp_results = temp_results"
| "search_items query_lower ((filename, subtitles) # d) temp_results =
     search_items query_lower d (search_entries query_lower filename subtitles temp_results)"

definition search_task :: "corpus \<Rightarrow> string \<Rightarrow> match_record list" where
  "search_task d query = search_items (lower query) d []"

text \<open>
  \<open>search\<close>: \<open>entry_text\<close> is the content of the search box. Two guards come first, each a
  warning dialog and a return with nothing changed; otherwise the task runs and its
  results replace \<open>search_results\<close> (the hand-over from the worker thread to the window is
  one step here).
\<close>

datatype search_notice =
    WarnNoQuery        \<comment> \<open>warning: enter a search keyword\<close>
  | WarnNoFiles        \<comment> \<open>warning: add SRT files first\<close>
  | NoMatchFound       \<comment> \<open>the result pane says that nothing matched\<close>
  | Found nat          \<comment> \<open>the result pane lists this many matches\<close>

definition search :: "app \<Rightarrow> string \<Rightarrow> app \<times> search_notice" where
  "search st entry_text =
     (let query = strip entry_text
      in if query = [] then (st, WarnNoQuery)
         else if subtitle_data st = [] then (st, WarnNoFiles)
         else
           (let temp_results = search_task (subtitle_data st) query
            in (st\<lparr>search_results := temp_results\<rparr>,
                if temp_results = [] then NoMatchFound else Found (length temp_results))))"

section \<open>Translating\<close>

text \<open>
  The settings of \<open>TranslatorService\<close>. \<open>current_service\<close> is \<open>None\<close> until one is saved.
\<close>

record translator =
  current_service :: "string option"
  azure_key :: string
  azure_region :: string
  google_key :: string
  deepl_key :: string

text \<open>
  A call of one of the provider methods, with its arguments; it is the only place where
  the network is used. What the call does is the world's: it returns the translated text
  or raises. \<open>_make_request\<close> raises \<open>TimeoutError\<close> or \<open>ConnectionError\<close>, reading the
  answer raises \<open>ValueError\<close>, \<open>KeyError\<close> or \<open>IndexError\<close>, and \<open>OtherException\<close> is any other
  subclass of \<open>Exception\<close>.
\<close>

datatype api_call =
    TranslateAzure string string string
  | TranslateGooglePaid string string
  | TranslateDeepL string string

datatype py_exn =
    ConnectionError string
  | TimeoutError string
  | ValueError string
  | KeyError string
  | IndexError string
  | OtherException string

text \<open>What \<open>translate\<close> returns: a translation, or one of its bracketed messages.\<close>

datatype reply =
    Translated string
  | SelectServiceFirst       \<comment> \<open>choose and configure a translation service first\<close>
  | NothingToTranslate       \<comment> \<open>empty text, nothing to translate\<close>
  | AzureNotConfigured       \<comment> \<open>Azure Key/Region not configured\<close>
  | GoogleNotConfigured      \<comment> \<open>Google API Key not configured\<close>
  | DeepLNotConfigured       \<comment> \<open>DeepL Key not configured\<close>
  | UnknownService           \<comment> \<open>unknown translation service\<close>
  | NetworkFailure string    \<comment> \<open>translation network error, with the message\<close>
  | ServiceFailure string    \<comment> \<open>the service returned an error, with the message\<close>
  | UnknownFailure string    \<comment> \<open>unknown error while translating, with the message\<close>

text \<open>The body of the \<open>try\<close>: the calls made, and the value returned or the exception raised.\<close>

definition translate_try ::
  "translator \<Rightarrow> (api_call \<Rightarrow> py_exn + string) \<Rightarrow> string \<Rightarrow> api_call list \<times> (py_exn + reply)" where
  "translate_try t net text =
     (if current_service t = Some ''Azure'' then
        if azure_key t = [] \<or> azure_region t = [] then ([], Inr AzureNotConfigured)
        else
          (let call = TranslateAzure text (azure_key t) (azure_region t)
           in ([call], map_sum id Translated (net call)))
      else if current_service t = Some ''Google'' then
        if google_key t \<noteq> [] then
          (let call = TranslateGooglePaid text (google_key t)
           in ([call], map_sum id Translated (net call)))
        else ([], Inr GoogleNotConfigured)
      else if current_service t = Some ''DeepL'' then
        if deepl_key t = [] then ([], Inr DeepLNotConfigured)
        else
          (let call = TranslateDeepL text (deepl_key t)
           in ([call], map_sum id Translated (net call)))
      else ([], Inr UnknownService))"

text \<open>The \<open>except\<close> clauses, in their order.\<close>

fun translate_except :: "py_exn \<Rightarrow> py_exn + reply" where
  "translate_except (ConnectionError m) = Inr (NetworkFailure m)"
| "translate_except (TimeoutError m) = Inr (NetworkFailure m)"
| "translate_except (ValueError m) = Inr (ServiceFailure m)"
| "translate_except (KeyError m) = Inr (ServiceFailure m)"
| "translate_except (IndexError m) = Inr (ServiceFailure m)"
| "translate_except (OtherException m) = Inr (UnknownFailure m)"

definition translate ::
  "translator \<Rightarrow> (api_call \<Rightarrow> py_exn + string) \<Rightarrow> string \<Rightarrow> api_call list \<times> (py_exn + reply)" where
  "translate t net text =
     (if current_service t = None \<or> current_service t = Some [] then ([], Inr SelectServiceFirst)
      else if text = [] \<or> isspace text then ([], Inr NothingToTranslate)
      else
        (case translate_try t net text of
           (calls, Inr r) \<Rightarrow> (calls, Inr r)
         | (calls, Inl e) \<Rightarrow> (calls, translate_except e)))"

section \<open>Shapes of timestamps, texts and contents\<close>

text \<open>
  The start time as the pattern captures it, class by class: two digits, a colon, two
  digits, a colon, two digits, a comma or a dot, three digits.
\<close>

definition stamp_classes :: "cls list" where
  "stamp_classes = [Digit, Digit, Lit CHR '':'', Digit, Digit, Lit CHR '':'', Digit, Digit,
                    OneOf '',.'', Digit, Digit, Digit]"

definition raw_stamp :: "string \<Rightarrow> bool" where
  "raw_stamp g = list_all2 cls_has stamp_classes g"



text \<open>
  A text has a tag when a \<open><\<close> is followed, somewhere after it, by a \<open>>\<close>. In a text of
  several lines, \<open>tag_in\<close> asks for the two on one line: \<open>closes cs\<close> says that \<open>cs\<close> has a
  \<open>>\<close> before its first line feed.
\<close>

fun has_tag :: "string \<Rightarrow> bool" where
  "has_tag [] = False"
| "has_tag (c # cs) = (if c = CHR ''<'' then CHR ''>'' \<in> set cs else has_tag cs)"





text \<open>A content has a blank-line terminator when two of \<open>\n\<close>, \<open>\r\<close> stand side by side.\<close>

fun two_breaks :: "string \<Rightarrow> bool" where
  "two_breaks [] = False"
| "two_breaks (c # cs) =
     ((cls_has newline_cr c \<and> (case cs of [] \<Rightarrow> False | d # ds \<Rightarrow> cls_has newline_cr d))
      \<or> two_breaks cs)"



text \<open>A world without a network, for concrete runs: every provider call fails to connect.\<close>

definition offline :: "api_call \<Rightarrow> py_exn + string" where
  "offline call = Inl (ConnectionError ''offline'')"

section \<open>Removing files discards the search results\<close>

lemma delete_loop_filter:
  "fst (delete_loop d n sel) = filter (\<lambda>(k, v). k \<notin> set sel) d"
proof (induction sel arbitrary: d n)
  case Nil
  then show ?case by simp
next
  case (Cons f sel)
  have "filter (\<lambda>(k, v). k \<notin> set sel) (dict_del d f)
          = filter (\<lambda>(k, v). k \<notin> set (f # sel)) d"
    by (induction d) (auto simp: dict_del_def)
  moreover have "\<not> has_key d f \<Longrightarrow>
      filter (\<lambda>(k, v). k \<notin> set sel) d = filter (\<lambda>(k, v). k \<notin> set (f # sel)) d"
    by (induction d) (auto simp: has_key_def)
  ultimately show ?case using Cons.IH by simp
qed

text \<open>
  Claim C10. When the selection is not empty and the removal is confirmed,
  \<open>delete_selected\<close> leaves no stored match record at all, whatever files the records
  came from, and the corpus keeps exactly the files that were not selected.
\<close>

theorem delete_selected_discards_results:
  assumes "selected_items \<noteq> []"
  shows "search_results (fst (delete_selected st selected_items True)) = []
         \<and> subtitle_data (fst (delete_selected st selected_items True))
             = filter (\<lambda>(k, v). k \<notin> set selected_items) (subtitle_data st)"
proof -
  obtain d n where dl: "delete_loop (subtitle_data st) 0 selected_items = (d, n)"
    by (cases "delete_loop (subtitle_data st) 0 selected_items")
  have "d = filter (\<lambda>(k, v). k \<notin> set selected_items) (subtitle_data st)"
    using delete_loop_filter [of "subtitle_data st" 0 selected_items] dl by simp
  then show ?thesis
    using assms dl by (simp add: delete_selected_def clear_search_results_def)
qed

text \<open>
  Two files are loaded and both have a match on display; removing \<open>a.srt\<close> alone also
  drops the match of \<open>b.srt\<close>.
\<close>

theorem delete_selected_discards_results_witness:
  "search_results (fst (delete_selected
       \<lparr>subtitle_data = [(''a.srt'', [(''00:00:01,000'', ''Hello'')]),
                         (''b.srt'', [(''00:00:02,000'', ''Hello you'')])],
        search_results = [(''a.srt'', ''00:00:01,000'', ''Hello''),
                          (''b.srt'', ''00:00:02,000'', ''Hello you'')]\<rparr>
       [''a.srt''] True)) = []
   \<and> subtitle_data (fst (delete_selected
       \<lparr>subtitle_data = [(''a.srt'', [(''00:00:01,000'', ''Hello'')]),
                         (''b.srt'', [(''00:00:02,000'', ''Hello you'')])],
        search_results = [(''a.srt'', ''00:00:01,000'', ''Hello''),
                          (''b.srt'', ''00:00:02,000'', ''Hello you'')]\<rparr>
       [''a.srt''] True)) = [(''b.srt'', [(''00:00:02,000'', ''Hello you'')])]"
  using delete_selected_discards_results [of "[''a.srt'']"
       "\<lparr>subtitle_data = [(''a.srt'', [(''00:00:01,000'', ''Hello'')]),
                          (''b.srt'', [(''00:00:02,000'', ''Hello you'')])],
         search_results = [(''a.srt'', ''00:00:01,000'', ''Hello''),
                           (''b.srt'', ''00:00:02,000'', ''Hello you'')]\<rparr>"]
  by simp

section \<open>Searching an empty corpus\<close>

lemma strip_hello: "strip ''hello'' = ''hello''"
  by code_simp

text \<open>
  Claim C5, as the program has it. With a query that is not blank and no file loaded,
  \<open>search\<close> stops at its second guard: it shows the warning that asks for files first,
  runs no search and leaves the state, stored results included, as it was.
\<close>

theorem search_empty_corpus_warns:
  "strip entry_text \<noteq> [] \<Longrightarrow> subtitle_data st = [] \<Longrightarrow>
     search st entry_text = (st, WarnNoFiles)"
  by (simp add: search_def Let_def)

theorem search_empty_corpus_warns_witness:
  "strip ''hello'' \<noteq> [] \<and> subtitle_data init_app = []
   \<and> search init_app ''hello'' = (init_app, WarnNoFiles)"
  using search_empty_corpus_warns [of "''hello''" init_app]
  by (simp add: strip_hello init_app_def)

text \<open>
  Claim C5 as it is written asks for an empty result, reported as a search that found
  nothing. On the empty corpus the query \<open>hello\<close> gets the warning instead.
\<close>

theorem search_empty_corpus_counterexample:
  "snd (search \<lparr>subtitle_data = [], search_results = []\<rparr> ''hello'') = WarnNoFiles
   \<and> snd (search \<lparr>subtitle_data = [], search_results = []\<rparr> ''hello'') \<noteq> NoMatchFound"
  by (simp add: search_def Let_def strip_hello)

section \<open>Concrete files\<close>

lemma parse_hello_there:
  "parse_srt ''00:00:01,000 --> 00:00:02,000\<newline>Hello there\<newline>\<newline>''
     = [(''00:00:01,000'', ''Hello there'')]"
  by code_simp

lemma parse_no_entry: "parse_srt ''no subtitles here'' = []"
  by code_simp

lemma lower_samples:
  "lower ''hello'' = ''hello''" "lower ''HELLO'' = ''hello''"
  "lower ''Hello there'' = ''hello there''" "lower ''Bye'' = ''bye''"
  "lower ''hello again'' = ''hello again''" "lower ''Oh HELLO'' = ''oh hello''"
  by code_simp+

lemma strip_HELLO: "strip ''HELLO'' = ''HELLO''"
  by code_simp

section \<open>Loading a file twice\<close>

text \<open>
  Claim C4, as the program has it. A file whose name is already in the corpus is passed
  over by \<open>select_files\<close>: the state is unchanged, the stored entries are the old ones,
  the file is not counted as loaded and is not put on the list of failed files.
\<close>

theorem duplicate_load_skipped:
  "has_key (subtitle_data st) filename \<Longrightarrow>
     select_files st [(filename, content)] = (st, Some (0, []))"
  by (simp add: select_files_def)

theorem duplicate_load_skipped_witness:
  "has_key (subtitle_data \<lparr>subtitle_data = [(''a.srt'', [(''00:00:01,000'', ''Hello there'')])],
                           search_results = []\<rparr>) ''a.srt''
   \<and> select_files \<lparr>subtitle_data = [(''a.srt'', [(''00:00:01,000'', ''Hello there'')])],
                     search_results = []\<rparr>
        [(''a.srt'', Some ''00:00:05,000 --> 00:00:06,000\<newline>Bye\<newline>\<newline>'')]
      = (\<lparr>subtitle_data = [(''a.srt'', [(''00:00:01,000'', ''Hello there'')])],
          search_results = []\<rparr>, Some (0, []))"
  using duplicate_load_skipped
    [of "\<lparr>subtitle_data = [(''a.srt'', [(''00:00:01,000'', ''Hello there'')])],
          search_results = []\<rparr>" "''a.srt''"
        "Some ''00:00:05,000 --> 00:00:06,000\<newline>Bye\<newline>\<newline>''"]
  by (simp add: has_key_def)

text \<open>
  Claim C4 as it is written has the second attempt surface an error. Loading \<open>a.srt\<close>
  into the empty corpus and then once more, with another content, reports no failed file
  the second time.
\<close>

theorem duplicate_load_counterexample:
  "select_files init_app
       [(''a.srt'', Some ''00:00:01,000 --> 00:00:02,000\<newline>Hello there\<newline>\<newline>'')]
     = (\<lparr>subtitle_data = [(''a.srt'', [(''00:00:01,000'', ''Hello there'')])],
         search_results = []\<rparr>, Some (1, []))
   \<and> snd (select_files \<lparr>subtitle_data = [(''a.srt'', [(''00:00:01,000'', ''Hello there'')])],
                          search_results = []\<rparr>
        [(''a.srt'', Some ''00:00:05,000 --> 00:00:06,000\<newline>Bye\<newline>\<newline>'')])
     = Some (0, [])"
  by (simp add: select_files_def init_app_def has_key_def load_srt_file_def Let_def
        parse_hello_there)

section \<open>Translating never raises\<close>

text \<open>
  Claim C6, as the program has it. \<open>translate\<close> always returns a reply, and its guards
  come in this order: with no service selected the reply is the request to select one,
  whatever the text; otherwise an empty or all-whitespace text is answered with the
  nothing-to-translate reply; otherwise a selected service whose key (or region) is
  missing is answered with that service's not-configured reply. None of the three makes
  a provider call.
\<close>

theorem translate_never_raises:
  "(\<exists>r. snd (translate t net text) = Inr r)
   \<and> (current_service t = None \<or> current_service t = Some [] \<longrightarrow>
        translate t net text = ([], Inr SelectServiceFirst))
   \<and> (current_service t \<noteq> None \<and> current_service t \<noteq> Some [] \<and> (text = [] \<or> isspace text) \<longrightarrow>
        translate t net text = ([], Inr NothingToTranslate))
   \<and> (text \<noteq> [] \<and> \<not> isspace text \<longrightarrow>
        (current_service t = Some ''Azure'' \<and> (azure_key t = [] \<or> azure_region t = []) \<longrightarrow>
           translate t net text = ([], Inr AzureNotConfigured))
      \<and> (current_service t = Some ''Google'' \<and> google_key t = [] \<longrightarrow>
           translate t net text = ([], Inr GoogleNotConfigured))
      \<and> (current_service t = Some ''DeepL'' \<and> deepl_key t = [] \<longrightarrow>
           translate t net text = ([], Inr DeepLNotConfigured)))"
proof -
  have caught: "\<exists>r. translate_except e = Inr r" for e
    by (cases e) simp_all
  have "\<exists>r. snd (translate t net text) = Inr r"
  proof (cases "translate_try t net text")
    case (Pair calls res)
    then show ?thesis
      using caught by (cases res) (auto simp: translate_def)
  qed
  moreover have "current_service t = None \<or> current_service t = Some [] \<longrightarrow>
        translate t net text = ([], Inr SelectServiceFirst)"
    by (simp add: translate_def)
  moreover have "current_service t \<noteq> None \<and> current_service t \<noteq> Some []
        \<and> (text = [] \<or> isspace text) \<longrightarrow>
        translate t net text = ([], Inr NothingToTranslate)"
    by (auto simp add: translate_def)
  moreover have "text \<noteq> [] \<and> \<not> isspace text \<longrightarrow>
        (current_service t = Some ''Azure'' \<and> (azure_key t = [] \<or> azure_region t = []) \<longrightarrow>
           translate t net text = ([], Inr AzureNotConfigured))
      \<and> (current_service t = Some ''Google'' \<and> google_key t = [] \<longrightarrow>
           translate t net text = ([], Inr GoogleNotConfigured))
      \<and> (current_service t = Some ''DeepL'' \<and> deepl_key t = [] \<longrightarrow>
           translate t net text = ([], Inr DeepLNotConfigured))"
    by (auto simp add: translate_def translate_try_def)
  ultimately show ?thesis by blast
qed

theorem translate_never_raises_witness:
  "\<not> isspace ''hello''
   \<and> translate \<lparr>current_service = Some ''DeepL'', azure_key = [], azure_region = [],
                 google_key = [], deepl_key = []\<rparr> offline ''hello''
      = ([], Inr DeepLNotConfigured)"
proof -
  have h: "\<not> isspace ''hello''"
    by (simp add: isspace_def is_space_def py_whitespace_def)
  show ?thesis
    using h translate_never_raises
      [of "\<lparr>current_service = Some ''DeepL'', azure_key = [], azure_region = [],
            google_key = [], deepl_key = []\<rparr>" offline "''hello''"]
    by simp
qed

text \<open>
  Claim C6 as it is written gives the empty text the nothing-to-translate reply and the
  missing key the not-configured reply, in every configuration. With no service selected
  the empty text gets the select-a-service reply; with Azure selected and no key, a blank
  text gets the nothing-to-translate reply.
\<close>

theorem translate_counterexample:
  "translate \<lparr>current_service = None, azure_key = [], azure_region = [],
               google_key = [], deepl_key = []\<rparr> offline []
     = ([], Inr SelectServiceFirst)
   \<and> translate \<lparr>current_service = Some ''Azure'', azure_key = [], azure_region = [],
                 google_key = [], deepl_key = []\<rparr> offline '' ''
     = ([], Inr NothingToTranslate)"
  by (simp add: translate_def isspace_def is_space_def py_whitespace_def)

section \<open>What a search returns\<close>

lemma starts_with_iff: "starts_with q t \<longleftrightarrow> (\<exists>r. t = q @ r)"
  by (induction q t rule: starts_with.induct) auto

lemma str_contains_iff: "str_contains q t \<longleftrightarrow> (\<exists>a b. t = a @ q @ b)"
proof (induction t)
  case Nil
  then show ?case by auto
next
  case (Cons c t)
  show ?case
  proof
    assume "str_contains q (c # t)"
    then consider "starts_with q (c # t)" | "str_contains q t" by auto
    then show "\<exists>a b. c # t = a @ q @ b"
    proof cases
      case 1
      then obtain r where "c # t = q @ r" using starts_with_iff by blast
      then have "c # t = [] @ q @ r" by simp
      then show ?thesis by blast
    next
      case 2
      then obtain a b where "t = a @ q @ b" using Cons.IH by blast
      then have "c # t = (c # a) @ q @ b" by simp
      then show ?thesis by blast
    qed
  next
    assume "\<exists>a b. c # t = a @ q @ b"
    then obtain a b where ab: "c # t = a @ q @ b" by blast
    show "str_contains q (c # t)"
    proof (cases a)
      case Nil
      then have "starts_with q (c # t)" using ab starts_with_iff by auto
      then show ?thesis by simp
    next
      case (Cons x a')
      then have "t = a' @ q @ b" using ab by simp
      then have "str_contains q t" using Cons.IH by blast
      then show ?thesis by simp
    qed
  qed
qed

lemma search_entries_eq:
  "search_entries ql fn subs acc
     = acc @ map (\<lambda>(ts, txt). (fn, ts, txt))
               (filter (\<lambda>(ts, txt). str_contains ql (lower txt)) subs)"
  by (induction subs arbitrary: acc) auto

lemma search_items_eq:
  "search_items ql d acc
     = acc @ concat (map (\<lambda>(fn, subs). map (\<lambda>(ts, txt). (fn, ts, txt))
                 (filter (\<lambda>(ts, txt). str_contains ql (lower txt)) subs)) d)"
  by (induction d arbitrary: acc) (auto simp: search_entries_eq)

lemma search_task_eq:
  "search_task d q
     = concat (map (\<lambda>(fn, subs). map (\<lambda>(ts, txt). (fn, ts, txt))
                 (filter (\<lambda>(ts, txt). str_contains (lower q) (lower txt)) subs)) d)"
  by (simp add: search_task_def search_items_eq)

lemma mem_hits:
  "(fn, ts, txt) \<in> set (concat (map (\<lambda>(fn, subs). map (\<lambda>(ts, txt). (fn, ts, txt))
                 (filter (\<lambda>(ts, txt). P txt) subs)) d))
   \<longleftrightarrow> (\<exists>subs. (fn, subs) \<in> set d \<and> (ts, txt) \<in> set subs \<and> P txt)"
  by (induction d) auto

lemma dict_set_new: "\<not> has_key d k \<Longrightarrow> dict_set d k v = d @ [(k, v)]"
  by (induction d) (auto simp: has_key_def)

lemma no_hello_in_bye: "\<not> str_contains ''hello'' ''bye''"
  by code_simp

text \<open>
  Claim C8. The queries \<open>HELLO\<close> and \<open>hello\<close> give the same search, on every state. When
  the query is not blank and files are loaded, the records that \<open>search\<close> stores are
  exactly the matching ones: a record is stored if and only if its entry is in the corpus
  and the lowercased (trimmed) query occurs, as it stands, somewhere in the lowercased
  text of the entry. The same holds of \<open>search_task\<close> on any corpus and query.
\<close>

theorem search_case_insensitive:
  "search st ''HELLO'' = search st ''hello''
   \<and> (strip entry_text \<noteq> [] \<and> subtitle_data st \<noteq> [] \<longrightarrow>
        ((fn, ts, txt) \<in> set (search_results (fst (search st entry_text))) \<longleftrightarrow>
           (\<exists>subs. (fn, subs) \<in> set (subtitle_data st) \<and> (ts, txt) \<in> set subs
                   \<and> (\<exists>a b. lower txt = a @ lower (strip entry_text) @ b))))
   \<and> ((fn, ts, txt) \<in> set (search_task d q) \<longleftrightarrow>
        (\<exists>subs. (fn, subs) \<in> set d \<and> (ts, txt) \<in> set subs
                \<and> (\<exists>a b. lower txt = a @ lower q @ b)))"
proof -
  have same: "search_task d' ''HELLO'' = search_task d' ''hello''" for d'
    by (simp add: search_task_def lower_samples)
  have mem: "(fn, ts, txt) \<in> set (search_task d' q') \<longleftrightarrow>
        (\<exists>subs. (fn, subs) \<in> set d' \<and> (ts, txt) \<in> set subs
                \<and> (\<exists>a b. lower txt = a @ lower q' @ b))" for d' q'
    unfolding str_contains_iff [symmetric] search_task_eq by (rule mem_hits)
  have "search st ''HELLO'' = search st ''hello''"
    using same by (simp add: search_def strip_HELLO strip_hello)
  moreover have "(fn, ts, txt) \<in> set (search_results (fst (search st entry_text))) \<longleftrightarrow>
           (\<exists>subs. (fn, subs) \<in> set (subtitle_data st) \<and> (ts, txt) \<in> set subs
                   \<and> (\<exists>a b. lower txt = a @ lower (strip entry_text) @ b))"
    if "strip entry_text \<noteq> []" "subtitle_data st \<noteq> []"
  proof -
    have "search_results (fst (search st entry_text))
            = search_task (subtitle_data st) (strip entry_text)"
      using that by (simp add: search_def Let_def)
    then show ?thesis by (simp only: mem)
  qed
  ultimately show ?thesis using mem [of d q] by blast
qed

text \<open>
  In a file with the lines \<open>Hello there\<close> and \<open>Bye\<close>, the query \<open>HELLO\<close> stores the record
  of the first line and not that of the second.
\<close>

theorem search_case_insensitive_witness:
  "strip ''HELLO'' \<noteq> []
   \<and> search \<lparr>subtitle_data = [(''a.srt'', [(''00:00:01,000'', ''Hello there''),
                                           (''00:00:03,000'', ''Bye'')])],
             search_results = []\<rparr> ''HELLO''
     = search \<lparr>subtitle_data = [(''a.srt'', [(''00:00:01,000'', ''Hello there''),
                                             (''00:00:03,000'', ''Bye'')])],
               search_results = []\<rparr> ''hello''
   \<and> (''a.srt'', ''00:00:01,000'', ''Hello there'')
        \<in> set (search_results (fst (search
              \<lparr>subtitle_data = [(''a.srt'', [(''00:00:01,000'', ''Hello there''),
                                              (''00:00:03,000'', ''Bye'')])],
                search_results = []\<rparr> ''HELLO'')))
   \<and> (''a.srt'', ''00:00:03,000'', ''Bye'')
        \<notin> set (search_results (fst (search
              \<lparr>subtitle_data = [(''a.srt'', [(''00:00:01,000'', ''Hello there''),
                                              (''00:00:03,000'', ''Bye'')])],
                search_results = []\<rparr> ''HELLO'')))"
proof -
  let ?st = "\<lparr>subtitle_data = [(''a.srt'', [(''00:00:01,000'', ''Hello there''),
                                           (''00:00:03,000'', ''Bye'')])],
             search_results = ([] :: match_record list)\<rparr>"
  have q: "strip ''HELLO'' \<noteq> []" "subtitle_data ?st \<noteq> []"
    by (simp_all add: strip_HELLO)
  have "lower ''Hello there'' = [] @ lower (strip ''HELLO'') @ '' there''"
    by (simp add: lower_samples strip_HELLO)
  then have yes: "\<exists>a b. lower ''Hello there'' = a @ lower (strip ''HELLO'') @ b"
    by blast
  have "\<not> str_contains (lower (strip ''HELLO'')) (lower ''Bye'')"
    by (simp add: lower_samples strip_HELLO no_hello_in_bye)
  then have no: "\<not> (\<exists>a b. lower ''Bye'' = a @ lower (strip ''HELLO'') @ b)"
    using str_contains_iff [of "lower (strip ''HELLO'')" "lower ''Bye''"] by blast
  have in_corpus: "(''a.srt'', [(''00:00:01,000'', ''Hello there''), (''00:00:03,000'', ''Bye'')])
          \<in> set (subtitle_data ?st)"
    by simp
  have in_file: "(''00:00:01,000'', ''Hello there'')
          \<in> set [(''00:00:01,000'', ''Hello there''), (''00:00:03,000'', ''Bye'')]"
    by simp
  have "(''a.srt'', [(''00:00:01,000'', ''Hello there''), (''00:00:03,000'', ''Bye'')])
          \<in> set (subtitle_data ?st)
        \<and> (''00:00:01,000'', ''Hello there'')
          \<in> set [(''00:00:01,000'', ''Hello there''), (''00:00:03,000'', ''Bye'')]
        \<and> (\<exists>a b. lower ''Hello there'' = a @ lower (strip ''HELLO'') @ b)"
    by (intro conjI in_corpus in_file yes)
  then have yes': "\<exists>subs. (''a.srt'', subs) \<in> set (subtitle_data ?st)
        \<and> (''00:00:01,000'', ''Hello there'') \<in> set subs
        \<and> (\<exists>a b. lower ''Hello there'' = a @ lower (strip ''HELLO'') @ b)"
    by (rule exI [of _ "[(''00:00:01,000'', ''Hello there''), (''00:00:03,000'', ''Bye'')]"])
  have no': "\<not> (\<exists>subs. (''a.srt'', subs) \<in> set (subtitle_data ?st)
        \<and> (''00:00:03,000'', ''Bye'') \<in> set subs
        \<and> (\<exists>a b. lower ''Bye'' = a @ lower (strip ''HELLO'') @ b))"
  proof
    assume "\<exists>subs. (''a.srt'', subs) \<in> set (subtitle_data ?st)
        \<and> (''00:00:03,000'', ''Bye'') \<in> set subs
        \<and> (\<exists>a b. lower ''Bye'' = a @ lower (strip ''HELLO'') @ b)"
    then obtain subs where "(''a.srt'', subs) \<in> set (subtitle_data ?st)
        \<and> (''00:00:03,000'', ''Bye'') \<in> set subs
        \<and> (\<exists>a b. lower ''Bye'' = a @ lower (strip ''HELLO'') @ b)" ..
    then have "\<exists>a b. lower ''Bye'' = a @ lower (strip ''HELLO'') @ b"
      by (rule conjunct2 [OF conjunct2])
    with no show False by (rule notE)
  qed
  note hello = search_case_insensitive [of ?st "''HELLO''" "''a.srt''" "''00:00:01,000''"
        "''Hello there''" "[]" "[]"]
  note bye = search_case_insensitive [of ?st "''HELLO''" "''a.srt''" "''00:00:03,000''"
        "''Bye''" "[]" "[]"]
  have hit: "(''a.srt'', ''00:00:01,000'', ''Hello there'')
        \<in> set (search_results (fst (search ?st ''HELLO'')))"
    by (rule hello [THEN conjunct2, THEN conjunct1, THEN mp, OF conjI [OF q], THEN iffD2,
          OF yes'])
  have miss: "(''a.srt'', ''00:00:03,000'', ''Bye'')
        \<notin> set (search_results (fst (search ?st ''HELLO'')))"
  proof
    assume "(''a.srt'', ''00:00:03,000'', ''Bye'')
        \<in> set (search_results (fst (search ?st ''HELLO'')))"
    then have "\<exists>subs. (''a.srt'', subs) \<in> set (subtitle_data ?st)
        \<and> (''00:00:03,000'', ''Bye'') \<in> set subs
        \<and> (\<exists>a b. lower ''Bye'' = a @ lower (strip ''HELLO'') @ b)"
      by (rule bye [THEN conjunct2, THEN conjunct1, THEN mp, OF conjI [OF q], THEN iffD1])
    with no' show False by (rule notE)
  qed
  have same: "search ?st ''HELLO'' = search ?st ''hello''"
    by (rule hello [THEN conjunct1])
  show ?thesis
    by (intro conjI q(1) same hit miss)
qed

text \<open>
  Claim C1, as the program has it. The records of a search are grouped by file in the
  order in which the corpus holds the files, and inside a file they come in the order of
  its entries; the corpus holds the files in the order in which they were loaded, a newly
  loaded file going to the end.
\<close>

theorem search_results_in_corpus_order:
  "(strip entry_text \<noteq> [] \<and> subtitle_data st \<noteq> [] \<longrightarrow>
      search_results (fst (search st entry_text))
        = concat (map (\<lambda>(fn, subs). map (\<lambda>(ts, txt). (fn, ts, txt))
                 (filter (\<lambda>(ts, txt). str_contains (lower (strip entry_text)) (lower txt)) subs))
            (subtitle_data st)))
   \<and> (\<not> has_key d filename \<and> parse_srt content \<noteq> [] \<longrightarrow>
        load_srt_file d filename (Some content) = Inr (d @ [(filename, parse_srt content)]))"
  by (simp add: search_def Let_def search_task_eq load_srt_file_def dict_set_new)

theorem search_results_in_corpus_order_witness:
  "strip ''hello'' \<noteq> []
   \<and> search_results (fst (search
        \<lparr>subtitle_data =
           [(''b.srt'', [(''00:00:01,000'', ''Hello there''), (''00:00:03,000'', ''Bye''),
                         (''00:00:05,000'', ''hello again'')]),
            (''a.srt'', [(''00:00:01,000'', ''Oh HELLO'')])],
         search_results = []\<rparr> ''hello''))
      = [(''b.srt'', ''00:00:01,000'', ''Hello there''),
         (''b.srt'', ''00:00:05,000'', ''hello again''),
         (''a.srt'', ''00:00:01,000'', ''Oh HELLO'')]
   \<and> \<not> has_key [(''b.srt'', [(''00:00:01,000'', ''Hello there'')])] ''a.srt''
   \<and> load_srt_file [(''b.srt'', [(''00:00:01,000'', ''Hello there'')])] ''a.srt''
        (Some ''00:00:01,000 --> 00:00:02,000\<newline>Hello there\<newline>\<newline>'')
      = Inr [(''b.srt'', [(''00:00:01,000'', ''Hello there'')]),
             (''a.srt'', [(''00:00:01,000'', ''Hello there'')])]"
proof -
  have nk: "\<not> has_key [(''b.srt'', [(''00:00:01,000'', ''Hello there'')])] ''a.srt''"
    by (simp add: has_key_def)
  show ?thesis
    using search_results_in_corpus_order [of "''hello''"
        "\<lparr>subtitle_data =
           [(''b.srt'', [(''00:00:01,000'', ''Hello there''), (''00:00:03,000'', ''Bye''),
                         (''00:00:05,000'', ''hello again'')]),
            (''a.srt'', [(''00:00:01,000'', ''Oh HELLO'')])],
         search_results = []\<rparr>"
        "[(''b.srt'', [(''00:00:01,000'', ''Hello there'')])]" "''a.srt''"
        "''00:00:01,000 --> 00:00:02,000\<newline>Hello there\<newline>\<newline>''"] nk
    by (simp add: strip_hello lower_samples parse_hello_there)
qed

text \<open>
  Claim C1 as it is written has the files in ascending order of their names. Loading
  \<open>b.srt\<close> and then \<open>a.srt\<close>, both with a line that matches, and searching \<open>hello\<close> gives
  the record of \<open>b.srt\<close> first.
\<close>

lemma two_files_loaded:
  "select_files init_app
       [(''b.srt'', Some ''00:00:01,000 --> 00:00:02,000\<newline>Hello there\<newline>\<newline>''),
        (''a.srt'', Some ''00:00:01,000 --> 00:00:02,000\<newline>Hello there\<newline>\<newline>'')]
   = (\<lparr>subtitle_data = [(''b.srt'', [(''00:00:01,000'', ''Hello there'')]),
                         (''a.srt'', [(''00:00:01,000'', ''Hello there'')])],
       search_results = []\<rparr>, Some (2, []))"
  by (simp add: select_files_def init_app_def has_key_def load_srt_file_def Let_def
        parse_hello_there)

lemma search_two_files:
  "search_task [(''b.srt'', [(''00:00:01,000'', ''Hello there'')]),
                (''a.srt'', [(''00:00:01,000'', ''Hello there'')])] ''hello''
   = [(''b.srt'', ''00:00:01,000'', ''Hello there''),
      (''a.srt'', ''00:00:01,000'', ''Hello there'')]"
  by code_simp

lemma b_a_not_sorted: "\<not> sorted [''b.srt'', ''a.srt'']"
  by code_simp

theorem search_order_counterexample:
  "map fst (search_results (fst (search (fst (select_files init_app
       [(''b.srt'', Some ''00:00:01,000 --> 00:00:02,000\<newline>Hello there\<newline>\<newline>''),
        (''a.srt'', Some ''00:00:01,000 --> 00:00:02,000\<newline>Hello there\<newline>\<newline>'')]))
      ''hello''))) = [''b.srt'', ''a.srt'']
   \<and> \<not> sorted [''b.srt'', ''a.srt'']"
  by (simp add: two_files_loaded search_def strip_hello search_two_files b_a_not_sorted)

section \<open>A file without entries\<close>

lemma select_loop_corpus:
  "fst (select_loop d n e files) = fst (select_loop d n' e' files)"
proof (induction files arbitrary: d n e n' e')
  case Nil
  then show ?case by simp
next
  case (Cons f files)
  obtain filename content where f: "f = (filename, content)" by (cases f)
  show ?case
  proof (cases "has_key d filename")
    case True
    then show ?thesis using f Cons.IH by simp
  next
    case False
    then show ?thesis
      using f Cons.IH by (cases "load_srt_file d filename content") simp_all
  qed
qed

lemma select_loop_append:
  "select_loop d n e (fs @ gs)
     = (case select_loop d n e fs of (d', n', e') \<Rightarrow> select_loop d' n' e' gs)"
proof (induction fs arbitrary: d n e)
  case Nil
  then show ?case by simp
next
  case (Cons f fs)
  obtain filename content where f: "f = (filename, content)" by (cases f)
  show ?case
    using f Cons.IH by (cases "load_srt_file d filename content") simp_all
qed

lemma select_loop_bad_step:
  assumes "parse_srt content = []"
  shows "fst (select_loop d n e ((filename, Some content) # files))
           = fst (select_loop d n e files)"
proof (cases "has_key d filename")
  case True
  then show ?thesis by simp
next
  case False
  then have "select_loop d n e ((filename, Some content) # files)
               = select_loop d n (e @ [(filename, NoValidEntries)]) files"
    using assms by (simp add: load_srt_file_def Let_def)
  then show ?thesis using select_loop_corpus by simp
qed

lemma select_loop_bad_anywhere:
  assumes "parse_srt content = []"
  shows "fst (select_loop d n e (before @ (filename, Some content) # after))
           = fst (select_loop d n e (before @ after))"
proof -
  obtain d' n' e' where b: "select_loop d n e before = (d', n', e')"
    by (cases "select_loop d n e before") auto
  show ?thesis
    using b select_loop_bad_step [OF assms, of d' n' e' filename after]
    by (simp add: select_loop_append)
qed

lemma select_files_corpus:
  "subtitle_data (fst (select_files st files))
     = fst (select_loop (subtitle_data st) 0 [] files)"
  by (cases files) (auto simp: select_files_def split: prod.splits)

text \<open>
  Claim C7. A decoded file fails to load with the no-valid-entries error exactly when
  the scan of its content gives no entry. Selected alone, such a file leaves the state as
  it was and is reported as failed. Anywhere in a batch, it makes no difference to the
  corpus that the batch builds: the files before and after it are loaded as without it.
\<close>

theorem bad_file_not_added:
  "(load_srt_file d filename (Some content) = Inl NoValidEntries \<longleftrightarrow> parse_srt content = [])
   \<and> (parse_srt content = [] \<and> \<not> has_key (subtitle_data st) filename \<longrightarrow>
        select_files st [(filename, Some content)]
          = (st, Some (0, [(filename, NoValidEntries)])))
   \<and> (parse_srt content = [] \<longrightarrow>
        subtitle_data (fst (select_files st (before @ (filename, Some content) # after)))
          = subtitle_data (fst (select_files st (before @ after))))"
proof -
  have "load_srt_file d filename (Some content) = Inl NoValidEntries
          \<longleftrightarrow> parse_srt content = []"
    by (simp add: load_srt_file_def Let_def)
  moreover have "parse_srt content = [] \<and> \<not> has_key (subtitle_data st) filename \<longrightarrow>
        select_files st [(filename, Some content)]
          = (st, Some (0, [(filename, NoValidEntries)]))"
    by (simp add: select_files_def load_srt_file_def Let_def)
  moreover have "parse_srt content = [] \<longrightarrow>
        subtitle_data (fst (select_files st (before @ (filename, Some content) # after)))
          = subtitle_data (fst (select_files st (before @ after)))"
    using select_loop_bad_anywhere [of content "subtitle_data st" 0 "[]" before filename after]
    by (simp add: select_files_corpus)
  ultimately show ?thesis by blast
qed

theorem bad_file_not_added_witness:
  "parse_srt ''no subtitles here'' = []
   \<and> \<not> has_key (subtitle_data init_app) ''bad.srt''
   \<and> load_srt_file [] ''bad.srt'' (Some ''no subtitles here'') = Inl NoValidEntries
   \<and> select_files init_app [(''bad.srt'', Some ''no subtitles here'')]
        = (init_app, Some (0, [(''bad.srt'', NoValidEntries)]))
   \<and> subtitle_data (fst (select_files init_app
        ([] @ (''bad.srt'', Some ''no subtitles here'')
           # [(''a.srt'',
               Some ''00:00:01,000 --> 00:00:02,000\<newline>Hello there\<newline>\<newline>'')])))
        = [(''a.srt'', [(''00:00:01,000'', ''Hello there'')])]"
proof -
  have good: "subtitle_data (fst (select_files init_app
        ([] @ [(''a.srt'',
                Some ''00:00:01,000 --> 00:00:02,000\<newline>Hello there\<newline>\<newline>'')])))
        = [(''a.srt'', [(''00:00:01,000'', ''Hello there'')])]"
    by (simp add: select_files_def init_app_def has_key_def load_srt_file_def Let_def
          parse_hello_there)
  have nk: "\<not> has_key (subtitle_data init_app) ''bad.srt''"
    by (simp add: has_key_def init_app_def)
  show ?thesis
    using bad_file_not_added [of "[]" "''bad.srt''" "''no subtitles here''" init_app "[]"
        "[(''a.srt'',
           Some ''00:00:01,000 --> 00:00:02,000\<newline>Hello there\<newline>\<newline>'')]"]
      parse_no_entry good nk
    by simp
qed

section \<open>What a match of the subtitle pattern looks like\<close>

lemma rmatch_OneE:
  assumes "rmatch (One k # p) s pos = Some r"
  obtains c cs where "s = c # cs" "cls_has k c" "rmatch p cs (Suc pos) = Some r"
  using assms by (cases s) (auto split: if_splits)

lemma rmatch_ParenE:
  assumes "rmatch (Paren # p) s pos = Some (ms, e)"
  obtains ms' where "ms = pos # ms'" "rmatch p s pos = Some (ms', e)"
  using assms by (auto split: option.splits)

lemma rmatch_Star_split:
  "rmatch (Star k # p) s pos = Some r \<Longrightarrow>
     \<exists>u rest. s = u @ rest \<and> list_all (cls_has k) u \<and> rmatch p rest (pos + length u) = Some r"
proof (induction s arbitrary: pos)
  case Nil
  then show ?case by simp
next
  case (Cons c cs)
  show ?case
  proof (cases "cls_has k c \<and> rmatch (Star k # p) cs (Suc pos) \<noteq> None")
    case True
    then have "rmatch (Star k # p) cs (Suc pos) = Some r"
      using Cons.prems by (auto split: option.splits)
    then obtain u rest where "cs = u @ rest" "list_all (cls_has k) u"
        "rmatch p rest (Suc pos + length u) = Some r"
      using Cons.IH by blast
    then have "c # cs = (c # u) @ rest \<and> list_all (cls_has k) (c # u)
        \<and> rmatch p rest (pos + length (c # u)) = Some r"
      using True by simp
    then show ?thesis by blast
  next
    case False
    then have "rmatch p (c # cs) pos = Some r"
      using Cons.prems by (auto split: option.splits if_splits)
    then have "c # cs = [] @ (c # cs) \<and> list_all (cls_has k) []
        \<and> rmatch p (c # cs) (pos + length ([] :: string)) = Some r"
      by simp
    then show ?thesis by blast
  qed
qed

lemma rmatch_LazyStar_split:
  "rmatch (LazyStar k # p) s pos = Some r \<Longrightarrow>
     \<exists>u rest. s = u @ rest \<and> list_all (cls_has k) u \<and> rmatch p rest (pos + length u) = Some r"
proof (induction s arbitrary: pos)
  case Nil
  then show ?case by simp
next
  case (Cons c cs)
  show ?case
  proof (cases "rmatch p (c # cs) pos")
    case (Some r')
    then have "rmatch p (c # cs) pos = Some r"
      using Cons.prems by simp
    then have "c # cs = [] @ (c # cs) \<and> list_all (cls_has k) []
        \<and> rmatch p (c # cs) (pos + length ([] :: string)) = Some r"
      by simp
    then show ?thesis by blast
  next
    case None
    then have k: "cls_has k c" and "rmatch (LazyStar k # p) cs (Suc pos) = Some r"
      using Cons.prems by (auto split: if_splits)
    then obtain u rest where "cs = u @ rest" "list_all (cls_has k) u"
        "rmatch p rest (Suc pos + length u) = Some r"
      using Cons.IH by blast
    then have "c # cs = (c # u) @ rest \<and> list_all (cls_has k) (c # u)
        \<and> rmatch p rest (pos + length (c # u)) = Some r"
      using k by simp
    then show ?thesis by blast
  qed
qed

lemma rmatch_StarE:
  assumes "rmatch (Star k # p) s pos = Some r"
  obtains u rest where "s = u @ rest" "list_all (cls_has k) u"
    "rmatch p rest (pos + length u) = Some r"
  using rmatch_Star_split [OF assms] by blast

lemma rmatch_LazyStarE:
  assumes "rmatch (LazyStar k # p) s pos = Some r"
  obtains u rest where "s = u @ rest" "list_all (cls_has k) u"
    "rmatch p rest (pos + length u) = Some r"
  using rmatch_LazyStar_split [OF assms] by blast

lemma rmatch_skip:
  "Paren \<notin> set q \<Longrightarrow> rmatch (q @ p) s pos = Some r \<Longrightarrow>
     \<exists>mid rest. s = mid @ rest \<and> rmatch p rest (pos + length mid) = Some r"
proof (induction q arbitrary: s pos)
  case Nil
  then have "s = [] @ s \<and> rmatch p s (pos + length ([] :: string)) = Some r" by simp
  then show ?case by blast
next
  case (Cons i q)
  have nq: "Paren \<notin> set q" using Cons.prems(1) by simp
  show ?case
  proof (cases i)
    case (One k)
    then have "rmatch (One k # (q @ p)) s pos = Some r" using Cons.prems(2) by simp
    then obtain c cs where s: "s = c # cs" "cls_has k c" "rmatch (q @ p) cs (Suc pos) = Some r"
      by (rule rmatch_OneE)
    obtain mid rest where m: "cs = mid @ rest" "rmatch p rest (Suc pos + length mid) = Some r"
      using Cons.IH [OF nq s(3)] by blast
    have "s = (c # mid) @ rest \<and> rmatch p rest (pos + length (c # mid)) = Some r"
      using s(1) m by simp
    then show ?thesis by blast
  next
    case (Star k)
    then have "rmatch (Star k # (q @ p)) s pos = Some r" using Cons.prems(2) by simp
    then obtain u s' where s: "s = u @ s'" "list_all (cls_has k) u"
        "rmatch (q @ p) s' (pos + length u) = Some r"
      by (rule rmatch_StarE)
    obtain mid rest where m: "s' = mid @ rest"
        "rmatch p rest (pos + length u + length mid) = Some r"
      using Cons.IH [OF nq s(3)] by blast
    have "s = (u @ mid) @ rest \<and> rmatch p rest (pos + length (u @ mid)) = Some r"
      using s(1) m by (simp add: add.assoc)
    then show ?thesis by blast
  next
    case (LazyStar k)
    then have "rmatch (LazyStar k # (q @ p)) s pos = Some r" using Cons.prems(2) by simp
    then obtain u s' where s: "s = u @ s'" "list_all (cls_has k) u"
        "rmatch (q @ p) s' (pos + length u) = Some r"
      by (rule rmatch_LazyStarE)
    obtain mid rest where m: "s' = mid @ rest"
        "rmatch p rest (pos + length u + length mid) = Some r"
      using Cons.IH [OF nq s(3)] by blast
    have "s = (u @ mid) @ rest \<and> rmatch p rest (pos + length (u @ mid)) = Some r"
      using s(1) m by (simp add: add.assoc)
    then show ?thesis by blast
  next
    case Paren
    then show ?thesis using Cons.prems(1) by simp
  qed
qed

lemma ones_shape:
  "rmatch (map One ks @ p) s pos = Some r \<Longrightarrow>
     list_all2 cls_has ks (take (length ks) s)
     \<and> rmatch p (drop (length ks) s) (pos + length ks) = Some r"
proof (induction ks arbitrary: s pos)
  case Nil
  then show ?case by simp
next
  case (Cons k ks)
  then have "rmatch (One k # (map One ks @ p)) s pos = Some r" by simp
  then obtain c cs where s: "s = c # cs" "cls_has k c"
      "rmatch (map One ks @ p) cs (Suc pos) = Some r"
    by (rule rmatch_OneE)
  then show ?case using Cons.IH [OF s(3)] by simp
qed

lemma srt_pattern_parts:
  "srt_pattern = Paren # map One stamp_classes @ Paren #
     ([Star Space, One (Lit CHR ''-''), One (Lit CHR ''-''), One (Lit CHR ''>''),
       LazyStar AnyChar, One newline_cr, Star newline_cr]
      @ [Paren, LazyStar AnyChar, Paren, One newline_cr, One newline_cr, Star newline_cr])"
  by (simp add: srt_pattern_def times_def lits_def plus_def two_or_more_def stamp_classes_def
        numeral_2_eq_2 numeral_3_eq_3)

lemma stamp_classes_length: "length stamp_classes = 12"
  by (simp add: stamp_classes_def)

lemma tail_shape:
  assumes "rmatch [Paren, LazyStar AnyChar, Paren, One k, One k, Star k] s pos = Some (ms, e)"
  shows "\<exists>g2 x y rest. s = g2 @ x # y # rest \<and> cls_has k x \<and> cls_has k y
           \<and> ms = [pos, pos + length g2]"
proof -
  from assms obtain ms1 where 1: "ms = pos # ms1"
      "rmatch [LazyStar AnyChar, Paren, One k, One k, Star k] s pos = Some (ms1, e)"
    by (rule rmatch_ParenE)
  from 1(2) obtain g2 s1 where 2: "s = g2 @ s1"
      "rmatch [Paren, One k, One k, Star k] s1 (pos + length g2) = Some (ms1, e)"
    by (rule rmatch_LazyStarE)
  from 2(2) obtain ms2 where 3: "ms1 = (pos + length g2) # ms2"
      "rmatch [One k, One k, Star k] s1 (pos + length g2) = Some (ms2, e)"
    by (rule rmatch_ParenE)
  from 3(2) obtain x s2 where 4: "s1 = x # s2" "cls_has k x"
      "rmatch [One k, Star k] s2 (Suc (pos + length g2)) = Some (ms2, e)"
    by (rule rmatch_OneE)
  from 4(3) obtain y s3 where 5: "s2 = y # s3" "cls_has k y"
      "rmatch [Star k] s3 (Suc (Suc (pos + length g2))) = Some (ms2, e)"
    by (rule rmatch_OneE)
  from 5(3) obtain u s4 where u: "s3 = u @ s4" "list_all (cls_has k) u"
      "rmatch [] s4 (Suc (Suc (pos + length g2)) + length u) = Some (ms2, e)"
    by (rule rmatch_StarE)
  from u(3) have "ms2 = []" by simp
  then have "s = g2 @ x # y # s3 \<and> cls_has k x \<and> cls_has k y \<and> ms = [pos, pos + length g2]"
    using 1 2 3 4 5 by simp
  then show ?thesis by blast
qed

lemma match_shape:
  assumes "rmatch srt_pattern s 0 = Some (ms, e)"
  shows "\<exists>g1 mid g2 x y rest.
           s = g1 @ mid @ g2 @ x # y # rest \<and> groups_of s ms = [g1, g2]
           \<and> raw_stamp g1 \<and> cls_has newline_cr x \<and> cls_has newline_cr y"
proof -
  let ?q = "[Star Space, One (Lit CHR ''-''), One (Lit CHR ''-''), One (Lit CHR ''>''),
      LazyStar AnyChar, One newline_cr, Star newline_cr]"
  let ?t = "[Paren, LazyStar AnyChar, Paren, One newline_cr, One newline_cr, Star newline_cr]"
  have "rmatch (Paren # map One stamp_classes @ Paren # (?q @ ?t)) s 0 = Some (ms, e)"
    using assms by (simp only: srt_pattern_parts)
  then obtain ms0 where a: "ms = 0 # ms0"
      "rmatch (map One stamp_classes @ Paren # (?q @ ?t)) s 0 = Some (ms0, e)"
    by (rule rmatch_ParenE)
  have b: "list_all2 cls_has stamp_classes (take 12 s)"
      "rmatch (Paren # (?q @ ?t)) (drop 12 s) 12 = Some (ms0, e)"
    using ones_shape [OF a(2)] by (simp_all add: stamp_classes_length)
  from b(2) obtain ms1 where c: "ms0 = 12 # ms1"
      "rmatch (?q @ ?t) (drop 12 s) 12 = Some (ms1, e)"
    by (rule rmatch_ParenE)
  have "Paren \<notin> set ?q" by simp
  then obtain mid s2 where m: "drop 12 s = mid @ s2"
      "rmatch ?t s2 (12 + length mid) = Some (ms1, e)"
    using rmatch_skip [OF _ c(2)] by blast
  obtain g2 x y rest where t: "s2 = g2 @ x # y # rest" "cls_has newline_cr x"
      "cls_has newline_cr y" "ms1 = [12 + length mid, 12 + length mid + length g2]"
    using tail_shape [OF m(2)] by blast
  have "s = take 12 s @ drop 12 s" by simp
  then have s: "s = take 12 s @ mid @ g2 @ x # y # rest"
    by (simp only: m(1) t(1))
  have g1: "span s 0 12 = take 12 s"
    by (simp add: span_def)
  have "drop (length mid + 12) s = drop (length mid) (drop 12 s)"
    by (simp only: drop_drop)
  then have "drop (12 + length mid) s = g2 @ x # y # rest"
    by (simp add: m(1) t(1) add.commute)
  then have g2: "span s (12 + length mid) (12 + length mid + length g2) = g2"
    by (simp add: span_def)
  have "ms = [0, 12, 12 + length mid, 12 + length mid + length g2]"
    by (simp only: a(1) c(1) t(4))
  then have "groups_of s ms = [take 12 s, g2]"
    by (simp add: groups_of_def g1 g2)
  then have "s = take 12 s @ mid @ g2 @ x # y # rest \<and> groups_of s ms = [take 12 s, g2]
      \<and> raw_stamp (take 12 s) \<and> cls_has newline_cr x \<and> cls_has newline_cr y"
    using s b(1) t(2,3) by (simp add: raw_stamp_def)
  then show ?thesis by blast
qed

lemma finditer_shape:
  "g \<in> set (finditer p s) \<Longrightarrow>
     \<exists>before s' ms e. s = before @ s' \<and> rmatch p s' 0 = Some (ms, e) \<and> g = groups_of s' ms"
proof (induction p s rule: finditer.induct)
  case (1 p)
  show ?case
  proof (cases "rmatch p [] 0")
    case None
    then show ?thesis using 1 by simp
  next
    case (Some r)
    obtain ms e where r: "r = (ms, e)" by (cases r)
    have "g = groups_of [] ms" using 1 Some r by simp
    then have "[] = [] @ ([] :: string) \<and> rmatch p [] 0 = Some (ms, e) \<and> g = groups_of [] ms"
      using Some r by simp
    then show ?thesis by (intro exI)
  qed
next
  case (2 p c cs)
  show ?case
  proof (cases "rmatch p (c # cs) 0")
    case None
    then have "g \<in> set (finditer p cs)" using 2(3) by simp
    from 2(1) [OF None this]
    obtain before s' ms e where i: "cs = before @ s'" "rmatch p s' 0 = Some (ms, e)"
        "g = groups_of s' ms"
      by (elim exE conjE)
    have "c # cs = (c # before) @ s' \<and> rmatch p s' 0 = Some (ms, e) \<and> g = groups_of s' ms"
      using i by simp
    then show ?thesis by (intro exI)
  next
    case (Some r)
    obtain ms e where r: "r = (ms, e)" by (cases r)
    have mem: "g = groups_of (c # cs) ms \<or> g \<in> set (finditer p (drop (e - 1) cs))"
      using 2(3) Some r by simp
    show ?thesis
    proof (cases "g = groups_of (c # cs) ms")
      case True
      have "c # cs = [] @ (c # cs) \<and> rmatch p (c # cs) 0 = Some (ms, e)
          \<and> g = groups_of (c # cs) ms"
        using Some r True by simp
      then show ?thesis by (intro exI)
    next
      case False
      then have "g \<in> set (finditer p (drop (e - 1) cs))"
        using mem by simp
      from 2(2) [OF Some r [symmetric] this]
      obtain before s' ms' e' where i: "drop (e - 1) cs = before @ s'"
          "rmatch p s' 0 = Some (ms', e')" "g = groups_of s' ms'"
        by (elim exE conjE)
      have "cs = take (e - 1) cs @ drop (e - 1) cs" by simp
      then have "cs = take (e - 1) cs @ before @ s'" by (simp only: i(1))
      then have "c # cs = (c # take (e - 1) cs @ before) @ s'" by simp
      then have "c # cs = (c # take (e - 1) cs @ before) @ s' \<and> rmatch p s' 0 = Some (ms', e')
          \<and> g = groups_of s' ms'"
        using i(2,3) by simp
      then show ?thesis by (intro exI)
    qed
  qed
qed

lemma entry_of_pair:
  "entry_of [g1, g2] =
     (if clean_text (strip g2) \<noteq> [] then [(replace_dot g1, clean_text (strip g2))] else [])"
  by (simp add: entry_of_def Let_def)

lemma entry_origin:
  assumes "(ts, txt) \<in> set (parse_srt content)"
  shows "\<exists>before g1 mid g2 x y rest.
           content = before @ g1 @ mid @ g2 @ x # y # rest
           \<and> raw_stamp g1 \<and> cls_has newline_cr x \<and> cls_has newline_cr y
           \<and> ts = replace_dot g1 \<and> txt = clean_text (strip g2) \<and> txt \<noteq> []"
proof -
  from assms obtain g where g: "g \<in> set (finditer srt_pattern content)"
      "(ts, txt) \<in> set (entry_of g)"
    by (auto simp: parse_srt_def)
  from finditer_shape [OF g(1)]
  obtain before s' ms e where f: "content = before @ s'"
      "rmatch srt_pattern s' 0 = Some (ms, e)" "g = groups_of s' ms"
    by (elim exE conjE)
  from match_shape [OF f(2)]
  obtain g1 mid g2 x y rest where m: "s' = g1 @ mid @ g2 @ x # y # rest"
      "groups_of s' ms = [g1, g2]" "raw_stamp g1" "cls_has newline_cr x" "cls_has newline_cr y"
    by (elim exE conjE)
  have "(ts, txt) \<in> set (entry_of [g1, g2])"
    using g(2) f(3) m(2) by simp
  then have e: "ts = replace_dot g1" "txt = clean_text (strip g2)" "txt \<noteq> []"
    by (simp_all add: entry_of_pair split: if_splits)
  have "content = before @ g1 @ mid @ g2 @ x # y # rest"
    using f(1) m(1) by simp
  then have "content = before @ g1 @ mid @ g2 @ x # y # rest
           \<and> raw_stamp g1 \<and> cls_has newline_cr x \<and> cls_has newline_cr y
           \<and> ts = replace_dot g1 \<and> txt = clean_text (strip g2) \<and> txt \<noteq> []"
    using m(3,4,5) e by simp
  then show ?thesis by (intro exI)
qed



section \<open>What the tag pattern removes\<close>












section \<open>Lines, trimming and joining\<close>

lemma cr_is_linebreak: "is_linebreak (CHR 0x0D)"
  by (simp add: is_linebreak_def py_linebreaks_def)

















section \<open>A block needs its blank line\<close>

lemma two_breaks_intro:
  "cls_has newline_cr x \<Longrightarrow> cls_has newline_cr y \<Longrightarrow> two_breaks (a @ x # y # b)"
  by (induction a) simp_all

text \<open>
  Claim C3, as the program has it. The pattern ends with \<open>[\n\r]{2,}\<close>, so an entry comes
  only from a block whose text is followed, in the content, by two line breaks; the scan
  has no second pass for a last block without them. A content in which no two line
  breaks stand side by side gives no entry at all.
\<close>

theorem unterminated_block_dropped:
  "(\<not> two_breaks content \<longrightarrow> parse_srt content = [])
   \<and> ((ts, txt) \<in> set (parse_srt content) \<longrightarrow>
        (\<exists>before g2 x y rest. content = before @ g2 @ x # y # rest
           \<and> cls_has newline_cr x \<and> cls_has newline_cr y \<and> txt = clean_text (strip g2)))"
proof -
  have origin: "\<exists>before g2 x y rest. content = before @ g2 @ x # y # rest
           \<and> cls_has newline_cr x \<and> cls_has newline_cr y \<and> t = clean_text (strip g2)"
    if "(s, t) \<in> set (parse_srt content)" for s t
  proof -
    from entry_origin [OF that]
    obtain before g1 mid g2 x y rest where o:
        "content = before @ g1 @ mid @ g2 @ x # y # rest" "cls_has newline_cr x"
        "cls_has newline_cr y" "t = clean_text (strip g2)"
      by (elim exE conjE)
    have "content = (before @ g1 @ mid) @ g2 @ x # y # rest \<and> cls_has newline_cr x
        \<and> cls_has newline_cr y \<and> t = clean_text (strip g2)"
      using o by simp
    then show ?thesis by (intro exI)
  qed
  have "parse_srt content = []" if nb: "\<not> two_breaks content"
  proof (cases "parse_srt content")
    case Nil
    then show ?thesis .
  next
    case (Cons e es)
    obtain s t where "e = (s, t)" by (cases e)
    then have "(s, t) \<in> set (parse_srt content)" using Cons by simp
    from origin [OF this]
    obtain before g2 x y rest where "content = before @ g2 @ x # y # rest"
        "cls_has newline_cr x" "cls_has newline_cr y"
      by (elim exE conjE)
    then have "two_breaks content"
      using two_breaks_intro [of x y "before @ g2" rest] by simp
    then show ?thesis using nb by simp
  qed
  then show ?thesis using origin by blast
qed

lemma no_two_breaks_sample:
  "\<not> two_breaks ''00:00:01,000 --> 00:00:02,000\<newline>Hello there\<newline>''"
  by code_simp

theorem unterminated_block_dropped_witness:
  "\<not> two_breaks ''00:00:01,000 --> 00:00:02,000\<newline>Hello there\<newline>''
   \<and> parse_srt ''00:00:01,000 --> 00:00:02,000\<newline>Hello there\<newline>'' = []
   \<and> (''00:00:01,000'', ''Hello there'')
        \<in> set (parse_srt ''00:00:01,000 --> 00:00:02,000\<newline>Hello there\<newline>\<newline>'')
   \<and> (\<exists>before g2 x y rest.
         ''00:00:01,000 --> 00:00:02,000\<newline>Hello there\<newline>\<newline>''
           = before @ g2 @ x # y # rest
         \<and> cls_has newline_cr x \<and> cls_has newline_cr y \<and> ''Hello there'' = clean_text (strip g2))"
proof -
  have m: "(''00:00:01,000'', ''Hello there'')
        \<in> set (parse_srt ''00:00:01,000 --> 00:00:02,000\<newline>Hello there\<newline>\<newline>'')"
    by (simp add: parse_hello_there)
  show ?thesis
    using no_two_breaks_sample m
      unterminated_block_dropped
        [of "''00:00:01,000 --> 00:00:02,000\<newline>Hello there\<newline>''"]
      unterminated_block_dropped
        [of "''00:00:01,000 --> 00:00:02,000\<newline>Hello there\<newline>\<newline>''"
            "''00:00:01,000''" "''Hello there''"]
    by blast
qed

text \<open>
  Claim C3 as it is written has the last block extracted without its blank line. Of two
  well-formed blocks, the second followed by one newline only, the scan returns the
  first; the same second block followed by a blank line is returned.
\<close>

theorem unterminated_block_counterexample:
  "parse_srt (''00:00:01,000 --> 00:00:02,000\<newline>First\<newline>\<newline>''
              @ ''00:00:03,000 --> 00:00:04,000\<newline>Last\<newline>'')
     = [(''00:00:01,000'', ''First'')]
   \<and> parse_srt ''00:00:03,000 --> 00:00:04,000\<newline>Last\<newline>\<newline>''
     = [(''00:00:03,000'', ''Last'')]"
  by code_simp

section \<open>The entries of a parsed file\<close>


text \<open>
  Claim C2. Every tag is to be stripped from the text of an entry. The program cuts a
  tag out when its \<open><\<close> and \<open>>\<close> stand on one line of the block, and leaves it in when
  they stand on two lines: the tag pattern is compiled without the DOTALL that the scan
  of the blocks has. A block with \<open><i>\<close> on one line gives the text \<open>Hello\<close>; the same
  block with the \<open>>\<close> of that tag on the next line gives a text in which a tag is left.
\<close>

theorem multiline_tag_kept:
  "parse_srt ''00:00:01,000 --> 00:00:02,000\<newline><i>Hello</i>\<newline>\<newline>''
     = [(''00:00:01,000'', ''Hello'')]
   \<and> parse_srt ''00:00:01,000 --> 00:00:02,000\<newline><i\<newline>>Hello</i>\<newline>\<newline>''
     = [(''00:00:01,000'', ''<i >Hello'')]
   \<and> has_tag ''<i >Hello''"
  by code_simp

section \<open>The corpus stays in order\<close>













end
